theory Spec2Isabelle
  imports
    Main
    "HOL-Library.Word"
    "HOL-Library.Char_ord"
    "HOL-Library.List_Lexorder"
    "HOL-Library.Product_Lexorder"
begin

section \<open>GraphWorkspace of tensorrt/src/graph_workspace.cc\<close>

text \<open>
  The workspace plans device memory over the registered models, then captures one CUDA
  graph per (model name, batch size). The embedding keeps the member names of the class.
  Every operation returns the outcome together with the workspace as it is when the
  operation ends: for a \<open>LOG(FATAL)\<close> or a failed \<open>CHECK\<close> that is the workspace at
  the moment the process aborts, for a thrown \<open>std::runtime_error\<close> the workspace the
  catching caller goes on with.
\<close>

subsection \<open>Scalar types and failures\<close>

type_synonym size_t = "64 word"
type_synonym uint32_t = "32 word"
type_synonym device_ptr = "64 word"

text \<open>
  \<open>LogFatal\<close> is glog's \<open>LOG(FATAL)\<close>, \<open>CheckFailed\<close> a failed \<open>CHECK_*\<close> or
  \<open>DCHECK_*\<close>: both end the process. \<open>RuntimeError\<close> is a thrown
  \<open>std::runtime_error\<close>, \<open>OutOfRange\<close> the \<open>std::out_of_range\<close> of \<open>map::at\<close>:
  both are C++ exceptions a caller can catch.
\<close>

datatype failure =
    LogFatal string
  | CheckFailed string
  | RuntimeError string
  | OutOfRange

fun is_fatal :: "failure \<Rightarrow> bool" where
  "is_fatal (LogFatal _) = True"
| "is_fatal (CheckFailed _) = True"
| "is_fatal (RuntimeError _) = False"
| "is_fatal OutOfRange = False"

fun is_exception :: "failure \<Rightarrow> bool" where
  "is_exception (RuntimeError _) = True"
| "is_exception OutOfRange = True"
| "is_exception (LogFatal _) = False"
| "is_exception (CheckFailed _) = False"

subsection \<open>Align (lines 39-44)\<close>

definition Align :: "size_t \<Rightarrow> size_t \<Rightarrow> size_t" where
  "Align sz alignment =
     (let remainder = sz mod alignment
      in if remainder = 0 then sz else sz + alignment - remainder)"

subsection \<open>std::map as a key-ordered association list\<close>

text \<open>
  \<open>find\<close> is \<^const>\<open>map_of\<close>; \<open>m[k] = v\<close> is \<open>map_assign\<close>, which replaces the entry
  of an equal key and otherwise inserts before the first greater key, so that iterating
  the list visits the keys in the order of \<open>std::map\<close>; \<open>size()\<close> is the length.
\<close>

type_synonym ('k, 'v) std_map = "('k \<times> 'v) list"

fun map_assign :: "'k::linorder \<Rightarrow> 'v \<Rightarrow> ('k, 'v) std_map \<Rightarrow> ('k, 'v) std_map" where
  "map_assign k v [] = [(k, v)]"
| "map_assign k v (e # es) =
     (if k = fst e then (k, v) # es
      else if k < fst e then (k, v) # e # es
      else e # map_assign k v es)"

subsection \<open>The model collaborator\<close>

text \<open>
  Modelled from the spec: the class \<open>Model\<close> (its header is not part of the sources) with
  the sizing facts that \<open>RegisterModel\<close> and \<open>BuildGraphs\<close> read: maximum batch size,
  total binding memory size, the bindings with their bytes per batch item, activation
  and weights memory size, and the display name that \<open>SetName\<close> assigns. The workspace
  holds models through \<open>shared_ptr\<close>; it only ever writes the name and never reads it, so
  the maps below hold a copy of the model with the name set.
\<close>

record Model =
  Name :: string
  MaxBatchSize :: uint32_t
  BindingMemorySize :: size_t
  Bindings :: "size_t list"
  ActivationsMemorySize :: size_t
  WeightsMemorySize :: size_t

definition GetBindingsCount :: "Model \<Rightarrow> size_t" where
  "GetBindingsCount model = of_nat (length (Bindings model))"

definition SetName :: "Model \<Rightarrow> string \<Rightarrow> Model" where
  "SetName model name = model\<lparr>Name := name\<rparr>"

text \<open>
  Modelled from the spec: an execution context is a per-model runtime handle with the
  scratch-memory base pointer that \<open>setDeviceMemory\<close> assigns.
\<close>

record ExecutionContext =
  ctx_model :: Model
  ctx_device_memory :: "device_ptr option"

definition CreateExecutionContext :: "Model \<Rightarrow> ExecutionContext" where
  "CreateExecutionContext model = \<lparr>ctx_model = model, ctx_device_memory = None\<rparr>"

definition setDeviceMemory :: "ExecutionContext \<Rightarrow> device_ptr \<Rightarrow> ExecutionContext" where
  "setDeviceMemory ctx p = ctx\<lparr>ctx_device_memory := Some p\<rparr>"

type_synonym ModelKey = "string \<times> uint32_t"

text \<open>Modelled from the spec: \<open>MakeKey\<close> pairs the model name with the batch size.\<close>

definition MakeKey :: "string \<Rightarrow> uint32_t \<Rightarrow> ModelKey" where
  "MakeKey name batch_size = (name, batch_size)"

subsection \<open>The device collaborators\<close>

text \<open>
  Modelled from the spec: \<open>MemoryStack\<close> is a bump allocator over one device allocation
  of fixed capacity. \<open>Allocate\<close> returns the next aligned sub-range and advances the
  offset by the size rounded up to the stack's alignment; \<open>Reset\<close> rewinds the offset to
  zero. The stack never grows, so a request that does not fit the remaining capacity
  has no result.
\<close>

record MemoryStack =
  ms_data :: device_ptr
  ms_capacity :: size_t
  ms_alignment :: size_t
  ms_offset :: size_t

definition MemoryStack_new :: "device_ptr \<Rightarrow> size_t \<Rightarrow> size_t \<Rightarrow> MemoryStack" where
  "MemoryStack_new p a n = \<lparr>ms_data = p, ms_capacity = n, ms_alignment = a, ms_offset = 0\<rparr>"

definition Allocate :: "MemoryStack \<Rightarrow> size_t \<Rightarrow> (device_ptr \<times> MemoryStack) option" where
  "Allocate st sz =
     (let a = unat (ms_alignment st);
          r = unat sz mod a;
          need = (if r = 0 then unat sz else unat sz + a - r)
      in if unat (ms_offset st) + need \<le> unat (ms_capacity st)
         then Some (ms_data st + ms_offset st, st\<lparr>ms_offset := ms_offset st + of_nat need\<rparr>)
         else None)"

definition Reset :: "MemoryStack \<Rightarrow> MemoryStack" where
  "Reset st = st\<lparr>ms_offset := 0\<rparr>"

text \<open>
  Modelled from the spec: \<open>Allocator\<close> is a single device allocation of fixed size;
  \<open>Data\<close> is its base address.
\<close>

record Allocator =
  al_data :: device_ptr
  al_size :: size_t

text \<open>
  A captured graph is what the capture recorded: the context's enqueue on the stream
  with the batch size and the binding pointers. The executor is the instantiated graph.
\<close>

record cudaGraph =
  g_stream :: nat
  g_context :: ExecutionContext
  g_batch_size :: uint32_t
  g_bindings :: "device_ptr list"

datatype cudaGraphExec = GraphExec cudaGraph

text \<open>
  What the device answers during one call of \<open>BuildGraphs\<close>: whether debug checks are
  compiled in, the addresses of the two device allocations (\<open>None\<close> when the allocation
  fails), the alignment of the stack, and whether the capture and instantiate calls for
  a key succeed.
\<close>

record Cuda =
  dcheck_is_on :: bool
  stack_memory :: "device_ptr option"
  stack_alignment :: size_t
  activation_memory :: "device_ptr option"
  cudaStreamBeginCapture :: "ModelKey \<Rightarrow> bool"
  cudaStreamEndCapture :: "ModelKey \<Rightarrow> bool"
  cudaGraphInstantiate :: "ModelKey \<Rightarrow> bool"

subsection \<open>The workspace\<close>

record GraphWorkspace =
  m_Stream :: nat
  m_DeviceStackSize :: size_t
  m_ActivationsSize :: size_t
  m_BindingsStack :: "MemoryStack option"
  m_ActivationSpace :: "Allocator option"
  m_Models :: "(string, Model) std_map"
  m_ExecutionContexts :: "(string, ExecutionContext) std_map"
  m_ModelsAndBatchSize :: "(ModelKey, Model) std_map"
  m_DeviceBindings :: "(string, device_ptr list) std_map"
  m_Graphs :: "(ModelKey, cudaGraph) std_map"
  m_GraphExecutors :: "(ModelKey, cudaGraphExec) std_map"

type_synonym 'a outcome = "(failure + 'a) \<times> GraphWorkspace"

text \<open>The constructor (lines 51-55); \<open>cudaStreamCreate\<close> gives the stream or fails.\<close>

definition GraphWorkspace_new :: "nat option \<Rightarrow> failure + GraphWorkspace" where
  "GraphWorkspace_new cudaStreamCreate =
     (case cudaStreamCreate of
        None \<Rightarrow> Inl (CheckFailed ''cudaStreamCreate(&m_Stream) == cudaSuccess'')
      | Some stream \<Rightarrow>
          Inr \<lparr>m_Stream = stream, m_DeviceStackSize = 0, m_ActivationsSize = 0,
               m_BindingsStack = None, m_ActivationSpace = None,
               m_Models = [], m_ExecutionContexts = [], m_ModelsAndBatchSize = [],
               m_DeviceBindings = [], m_Graphs = [], m_GraphExecutors = []\<rparr>)"

subsection \<open>RegisterModel (lines 77-118)\<close>

text \<open>
  \<open>alignment\<close> is \<open>DeviceInfo::Alignment()\<close>, a property of the device. The three
  fatal checks come first, in the order of the source; the sizing maxima and the three
  maps are written only after them.
\<close>

definition RegisterModel ::
  "size_t \<Rightarrow> GraphWorkspace \<Rightarrow> string \<Rightarrow> Model \<Rightarrow> uint32_t \<Rightarrow> unit outcome" where
  "RegisterModel alignment s name model batch_size =
     (if m_BindingsStack s \<noteq> None \<or> m_ActivationSpace s \<noteq> None
      then (Inl (LogFatal ''Registration of new models is not allowed after graph creation''), s)
      else if \<not> batch_size \<le> MaxBatchSize model
      then (Inl (CheckFailed ''batch_size <= model->GetMaxBatchSize()''), s)
      else
        let key = MakeKey name batch_size in
        (case map_of (m_ModelsAndBatchSize s) key of
           Some _ \<Rightarrow> (Inl (LogFatal ''Model collsion''), s)
         | None \<Rightarrow>
            let bindings = BindingMemorySize model + GetBindingsCount model * alignment;
                activations = Align (ActivationsMemorySize model) (128 * 1024);
                device = Align bindings (128 * 1024);
                s1 = s\<lparr>m_DeviceStackSize := max (m_DeviceStackSize s) device\<rparr>;
                s2 = s1\<lparr>m_ActivationsSize := max (m_ActivationsSize s1) activations\<rparr>;
                model' = SetName model name;
                s3 = s2\<lparr>m_Models := map_assign name model' (m_Models s2)\<rparr>;
                s4 = s3\<lparr>m_ExecutionContexts :=
                          map_assign name (CreateExecutionContext model') (m_ExecutionContexts s3)\<rparr>;
                s5 = s4\<lparr>m_ModelsAndBatchSize := map_assign key model' (m_ModelsAndBatchSize s4)\<rparr>
            in (Inr (), s5)))"

subsection \<open>BuildGraphs (lines 120-198)\<close>

text \<open>
  The inner loop of lines 159-164: one \<open>Allocate\<close> of
  \<open>max_batch_size * bytesPerBatchItem\<close> per binding, in order.
\<close>

fun allocate_bindings ::
  "MemoryStack \<Rightarrow> uint32_t \<Rightarrow> size_t list \<Rightarrow> (device_ptr list \<times> MemoryStack) option" where
  "allocate_bindings st max_batch_size [] = Some ([], st)"
| "allocate_bindings st max_batch_size (bytesPerBatchItem # infos) =
     (case Allocate st (ucast max_batch_size * bytesPerBatchItem) of
        None \<Rightarrow> None
      | Some (p, st') \<Rightarrow>
          (case allocate_bindings st' max_batch_size infos of
             None \<Rightarrow> None
           | Some (ps, st'') \<Rightarrow> Some (p # ps, st'')))"

text \<open>The body of the loop over \<open>m_ModelsAndBatchSize\<close> (lines 137-196).\<close>

definition build_graph :: "Cuda \<Rightarrow> GraphWorkspace \<Rightarrow> ModelKey \<times> Model \<Rightarrow> unit outcome" where
  "build_graph cuda s item =
     (let key = fst item; model = snd item; name = fst key; batch_size = snd key in
      case map_of (m_ExecutionContexts s) name of
        None \<Rightarrow> (Inl OutOfRange, s)
      | Some ctx0 \<Rightarrow>
      (case (m_ActivationSpace s, m_BindingsStack s) of
        (Some space, Some stack) \<Rightarrow>
          let ctx = setDeviceMemory ctx0 (al_data space);
              s1 = s\<lparr>m_ExecutionContexts := map_assign name ctx (m_ExecutionContexts s)\<rparr>;
              pushed =
                (case map_of (m_DeviceBindings s1) name of
                   None \<Rightarrow>
                     (case allocate_bindings stack (MaxBatchSize model) (Bindings model) of
                        None \<Rightarrow> None
                      | Some (bindings, stack') \<Rightarrow>
                          Some (bindings,
                                s1\<lparr>m_BindingsStack := Some stack',
                                   m_DeviceBindings :=
                                     map_assign name bindings (m_DeviceBindings s1)\<rparr>))
                 | Some bindings \<Rightarrow> Some (bindings, s1))
          in (case pushed of
                None \<Rightarrow> (Inl (CheckFailed ''MemoryStack::Allocate''), s1)
              | Some (bindings, s2) \<Rightarrow>
                  if \<not> cudaStreamBeginCapture cuda key
                  then (Inl (CheckFailed ''cudaStreamBeginCapture == CUDA_SUCCESS''), s2)
                  else if \<not> cudaStreamEndCapture cuda key
                  then (Inl (CheckFailed ''cudaStreamEndCapture == CUDA_SUCCESS''), s2)
                  else
                    let graph = \<lparr>g_stream = m_Stream s2, g_context = ctx,
                                 g_batch_size = batch_size, g_bindings = bindings\<rparr>;
                        s3 = s2\<lparr>m_Graphs := map_assign key graph (m_Graphs s2)\<rparr>;
                        s4 = s3\<lparr>m_BindingsStack := map_option Reset (m_BindingsStack s3)\<rparr>
                    in if \<not> cudaGraphInstantiate cuda key
                       then (Inl (CheckFailed ''cudaGraphInstantiate == CUDA_SUCCESS''), s4)
                       else (Inr (), s4\<lparr>m_GraphExecutors :=
                                          map_assign key (GraphExec graph) (m_GraphExecutors s4)\<rparr>))
      | _ \<Rightarrow> (Inl (CheckFailed ''null allocator''), s)))"

fun build_loop :: "Cuda \<Rightarrow> (ModelKey \<times> Model) list \<Rightarrow> GraphWorkspace \<Rightarrow> unit outcome" where
  "build_loop cuda [] s = (Inr (), s)"
| "build_loop cuda (item # items) s =
     (case build_graph cuda s item of
        (Inr _, s') \<Rightarrow> build_loop cuda items s'
      | (Inl e, s') \<Rightarrow> (Inl e, s'))"

definition BuildGraphs :: "Cuda \<Rightarrow> GraphWorkspace \<Rightarrow> unit outcome" where
  "BuildGraphs cuda s =
     (if length (m_Models s) = 0 then (Inr (), s)
      else if dcheck_is_on cuda \<and> \<not> m_DeviceStackSize s > 0
      then (Inl (CheckFailed ''m_DeviceStackSize > 0''), s)
      else if dcheck_is_on cuda \<and> \<not> m_ActivationsSize s > 0
      then (Inl (CheckFailed ''m_ActivationsSize > 0''), s)
      else
        (case stack_memory cuda of
           None \<Rightarrow> (Inl (CheckFailed ''MemoryStack<CudaDeviceMemory>''), s)
         | Some p \<Rightarrow>
            let s1 = s\<lparr>m_BindingsStack :=
                         Some (MemoryStack_new p (stack_alignment cuda) (m_DeviceStackSize s))\<rparr>
            in (case activation_memory cuda of
                  None \<Rightarrow> (Inl (CheckFailed ''Allocator<CudaDeviceMemory>''), s1)
                | Some q \<Rightarrow>
                   let s2 = s1\<lparr>m_ActivationSpace :=
                                 Some \<lparr>al_data = q, al_size = m_ActivationsSize s1\<rparr>\<rparr>
                   in build_loop cuda (m_ModelsAndBatchSize s2) s2)))"

subsection \<open>The accessors (lines 200-240)\<close>

definition IsModelRegistered :: "GraphWorkspace \<Rightarrow> string \<Rightarrow> bool outcome" where
  "IsModelRegistered s name =
     (case map_of (m_Models s) name of
        None \<Rightarrow> (Inr False, s)
      | Some _ \<Rightarrow> (Inr True, s))"

definition IsGraphAvailable :: "GraphWorkspace \<Rightarrow> string \<Rightarrow> uint32_t \<Rightarrow> bool outcome" where
  "IsGraphAvailable s name batch_size =
     (let key = MakeKey name batch_size in
      case map_of (m_GraphExecutors s) key of
        None \<Rightarrow> (Inr False, s)
      | Some _ \<Rightarrow> (Inr True, s))"

definition GetGraph :: "GraphWorkspace \<Rightarrow> string \<Rightarrow> uint32_t \<Rightarrow> cudaGraphExec outcome" where
  "GetGraph s name batch_size =
     (let key = MakeKey name batch_size in
      case map_of (m_GraphExecutors s) key of
        None \<Rightarrow> (Inl (RuntimeError (''No graph executor for '' @ name)), s)
      | Some exec \<Rightarrow> (Inr exec, s))"

definition DeviceBindingsByName :: "GraphWorkspace \<Rightarrow> string \<Rightarrow> device_ptr list outcome" where
  "DeviceBindingsByName s name =
     (case map_of (m_DeviceBindings s) name of
        None \<Rightarrow> (Inl (RuntimeError (''No DeviceBindings for model: '' @ name)), s)
      | Some bindings \<Rightarrow> (Inr bindings, s))"

subsection \<open>Sequences of calls\<close>

text \<open>
  A client's calls of the two mutating operations, run in order on one workspace; the
  run ends at the first call that fails, as the process does.
\<close>

datatype call =
    CallRegisterModel string Model uint32_t
  | CallBuildGraphs Cuda

fun step :: "size_t \<Rightarrow> call \<Rightarrow> GraphWorkspace \<Rightarrow> unit outcome" where
  "step alignment (CallRegisterModel name model batch_size) s =
     RegisterModel alignment s name model batch_size"
| "step alignment (CallBuildGraphs cuda) s = BuildGraphs cuda s"

fun run :: "size_t \<Rightarrow> call list \<Rightarrow> GraphWorkspace \<Rightarrow> unit outcome" where
  "run alignment [] s = (Inr (), s)"
| "run alignment (c # cs) s =
     (case step alignment c s of
        (Inr _, s') \<Rightarrow> run alignment cs s'
      | (Inl e, s') \<Rightarrow> (Inl e, s'))"

subsection \<open>The sizing requirement of one model\<close>

text \<open>
  The locals \<open>device\<close> and \<open>activations\<close> of \<open>RegisterModel\<close> (lines 96-100), in the
  arithmetic of \<open>size_t\<close>.
\<close>

definition device_requirement :: "size_t \<Rightarrow> Model \<Rightarrow> size_t" where
  "device_requirement alignment model =
     Align (BindingMemorySize model + GetBindingsCount model * alignment) (128 * 1024)"

definition activations_requirement :: "Model \<Rightarrow> size_t" where
  "activations_requirement model = Align (ActivationsMemorySize model) (128 * 1024)"

text \<open>
  The same requirements in the words of the spec, on natural numbers: the total binding
  memory size plus one alignment pad per binding slot, rounded up to the next multiple
  of 128 KiB, and the activation memory size rounded up to the same boundary.
\<close>

definition round_up :: "nat \<Rightarrow> nat \<Rightarrow> nat" where
  "round_up n b = (n + b - 1) div b * b"

definition spec_binding_requirement :: "size_t \<Rightarrow> Model \<Rightarrow> nat" where
  "spec_binding_requirement alignment model =
     round_up (unat (BindingMemorySize model) + length (Bindings model) * unat alignment)
       (128 * 1024)"

definition spec_activation_requirement :: "Model \<Rightarrow> nat" where
  "spec_activation_requirement model = round_up (unat (ActivationsMemorySize model)) (128 * 1024)"

text \<open>The models of the \<open>RegisterModel\<close> calls of a sequence.\<close>

fun registered_models :: "call list \<Rightarrow> Model list" where
  "registered_models [] = []"
| "registered_models (CallRegisterModel name model batch_size # cs) =
     model # registered_models cs"
| "registered_models (CallBuildGraphs cuda # cs) = registered_models cs"

subsection \<open>Predicates on call sequences and workspaces\<close>

text \<open>The keys of the \<open>RegisterModel\<close> calls of a sequence.\<close>

fun registered_keys :: "call list \<Rightarrow> ModelKey list" where
  "registered_keys [] = []"
| "registered_keys (CallRegisterModel name model batch_size # cs) =
     MakeKey name batch_size # registered_keys cs"
| "registered_keys (CallBuildGraphs cuda # cs) = registered_keys cs"

text \<open>
  A key is built after registering when the sequence has a \<open>BuildGraphs\<close> call with a
  \<open>RegisterModel\<close> call for that key somewhere before it.
\<close>

definition built_after_registering :: "call list \<Rightarrow> ModelKey \<Rightarrow> bool" where
  "built_after_registering cs k \<longleftrightarrow>
     (\<exists>pre cuda post. cs = pre @ CallBuildGraphs cuda # post \<and> k \<in> set (registered_keys pre))"

text \<open>
  Every cached executor was captured with the bindings that are cached for its name.
\<close>

definition executors_use_bindings :: "GraphWorkspace \<Rightarrow> bool" where
  "executors_use_bindings s \<longleftrightarrow>
     (\<forall>k g. map_of (m_GraphExecutors s) k = Some (GraphExec g) \<longrightarrow>
        map_of (m_DeviceBindings s) (fst k) = Some (g_bindings g))"

text \<open>
  What holds of every workspace reached from a new one: nothing is cached before the
  stack exists, the two registration maps are empty together, the keys are in order.
\<close>

definition workspace_inv :: "GraphWorkspace \<Rightarrow> bool" where
  "workspace_inv s \<longleftrightarrow>
     (m_BindingsStack s = None \<longrightarrow> m_DeviceBindings s = [] \<and> m_GraphExecutors s = []) \<and>
     (m_Models s = [] \<longleftrightarrow> m_ModelsAndBatchSize s = []) \<and>
     sorted_wrt (<) (map fst (m_ModelsAndBatchSize s)) \<and>
     executors_use_bindings s"

subsection \<open>A concrete scenario\<close>

text \<open>
  Model "A" of the spec's scenario: maximum batch size 8, one binding of 4 bytes per
  batch item, 1000 bytes of activations; registered at batch sizes 4 and 8 on a device
  with alignment 256, then built on a device where every call succeeds. The workspaces
  after each call are written out.
\<close>

definition model_A :: Model where
  "model_A = \<lparr>Name = [], MaxBatchSize = 8, BindingMemorySize = 32, Bindings = [4],
              ActivationsMemorySize = 1000, WeightsMemorySize = 0\<rparr>"

definition device_ok :: Cuda where
  "device_ok = \<lparr>dcheck_is_on = True, stack_memory = Some 4096, stack_alignment = 256,
                activation_memory = Some 1048576,
                cudaStreamBeginCapture = (\<lambda>_. True),
                cudaStreamEndCapture = (\<lambda>_. True),
                cudaGraphInstantiate = (\<lambda>_. True)\<rparr>"

definition ws_fresh :: GraphWorkspace where
  "ws_fresh = \<lparr>m_Stream = 7, m_DeviceStackSize = 0, m_ActivationsSize = 0,
       m_BindingsStack = None, m_ActivationSpace = None,
       m_Models = [], m_ExecutionContexts = [], m_ModelsAndBatchSize = [],
       m_DeviceBindings = [], m_Graphs = [], m_GraphExecutors = []\<rparr>"

definition ws_A4 :: GraphWorkspace where
  "ws_A4 = ws_fresh\<lparr>m_DeviceStackSize := 131072, m_ActivationsSize := 131072,
       m_Models := [(''A'', model_A\<lparr>Name := ''A''\<rparr>)],
       m_ExecutionContexts :=
         [(''A'', \<lparr>ctx_model = model_A\<lparr>Name := ''A''\<rparr>, ctx_device_memory = None\<rparr>)],
       m_ModelsAndBatchSize := [((''A'', 4), model_A\<lparr>Name := ''A''\<rparr>)]\<rparr>"

definition ws_A4_A8 :: GraphWorkspace where
  "ws_A4_A8 = ws_A4\<lparr>m_ModelsAndBatchSize :=
       [((''A'', 4), model_A\<lparr>Name := ''A''\<rparr>), ((''A'', 8), model_A\<lparr>Name := ''A''\<rparr>)]\<rparr>"

definition graph_A :: "uint32_t \<Rightarrow> cudaGraph" where
  "graph_A b = \<lparr>g_stream = 7,
       g_context = \<lparr>ctx_model = model_A\<lparr>Name := ''A''\<rparr>, ctx_device_memory = Some 1048576\<rparr>,
       g_batch_size = b, g_bindings = [4096]\<rparr>"

definition ws_built :: GraphWorkspace where
  "ws_built = ws_A4_A8\<lparr>
       m_BindingsStack :=
         Some \<lparr>ms_data = 4096, ms_capacity = 131072, ms_alignment = 256, ms_offset = 0\<rparr>,
       m_ActivationSpace := Some \<lparr>al_data = 1048576, al_size = 131072\<rparr>,
       m_ExecutionContexts :=
         [(''A'', \<lparr>ctx_model = model_A\<lparr>Name := ''A''\<rparr>, ctx_device_memory = Some 1048576\<rparr>)],
       m_DeviceBindings := [(''A'', [4096])],
       m_Graphs := [((''A'', 4), graph_A 4), ((''A'', 8), graph_A 8)],
       m_GraphExecutors :=
         [((''A'', 4), GraphExec (graph_A 4)), ((''A'', 8), GraphExec (graph_A 8))]\<rparr>"

subsection \<open>A scenario with two bindings and two models\<close>









section \<open>Basic facts\<close>

subsection \<open>The association-list map\<close>

lemma map_of_map_assign: "map_of (map_assign k v m) = (map_of m)(k \<mapsto> v)"
  by (induction m) (auto simp: fun_eq_iff)

lemma keys_map_assign: "fst ` set (map_assign k v m) = insert k (fst ` set m)"
  by (induction m) auto

lemma map_assign_not_Nil: "map_assign k v m \<noteq> []"
  by (cases m) auto

lemma sorted_map_assign:
  "sorted_wrt (<) (map fst m) \<Longrightarrow> sorted_wrt (<) (map fst (map_assign k v m))"
proof (induction m)
  case Nil
  then show ?case by simp
next
  case (Cons e es)
  have "\<forall>x \<in> fst ` set (map_assign k v es). fst e < x" if "fst e < k"
    using that Cons.prems by (auto simp: keys_map_assign)
  with Cons show ?case by (auto simp: not_less)
qed

subsection \<open>RegisterModel, case by case\<close>

lemma RegisterModel_failure:
  assumes "RegisterModel alignment s name model batch_size = (Inl f, s')"
  shows "is_fatal f \<and> s' = s"
  using assms
  by (auto simp: RegisterModel_def Let_def split: if_splits option.splits)

lemma RegisterModel_succeeds_iff:
  "fst (RegisterModel alignment s name model batch_size) = Inr () \<longleftrightarrow>
     m_BindingsStack s = None \<and> m_ActivationSpace s = None \<and>
     batch_size \<le> MaxBatchSize model \<and>
     map_of (m_ModelsAndBatchSize s) (name, batch_size) = None"
  by (auto simp: RegisterModel_def Let_def MakeKey_def split: option.splits)

lemma RegisterModel_success:
  assumes "RegisterModel alignment s name model batch_size = (Inr u, s')"
  shows "s' = s\<lparr>
      m_DeviceStackSize := max (m_DeviceStackSize s)
        (Align (BindingMemorySize model + GetBindingsCount model * alignment) (128 * 1024)),
      m_ActivationsSize := max (m_ActivationsSize s)
        (Align (ActivationsMemorySize model) (128 * 1024)),
      m_Models := map_assign name (SetName model name) (m_Models s),
      m_ExecutionContexts := map_assign name
        (CreateExecutionContext (SetName model name)) (m_ExecutionContexts s),
      m_ModelsAndBatchSize := map_assign (name, batch_size)
        (SetName model name) (m_ModelsAndBatchSize s)\<rparr>"
  using assms
  by (auto simp: RegisterModel_def Let_def MakeKey_def split: if_splits option.splits)

subsection \<open>The stack allocator and one pass of the loop body\<close>

lemma Allocate_keeps_region:
  assumes "Allocate st sz = Some (p, st')"
  shows "Reset st' = Reset st"
  using assms by (auto simp: Allocate_def Reset_def Let_def split: if_splits)

lemma allocate_bindings_keeps_region:
  "allocate_bindings st mb infos = Some (ps, st') \<Longrightarrow> Reset st' = Reset st"
proof (induction infos arbitrary: st ps)
  case Nil
  then show ?case by simp
next
  case (Cons i infos)
  then show ?case
    by (auto split: option.splits prod.splits dest!: Allocate_keeps_region)
qed


lemma build_graph_frame:
  assumes "build_graph cuda s item = (r, s')"
  shows "m_Stream s' = m_Stream s"
    and "m_DeviceStackSize s' = m_DeviceStackSize s"
    and "m_ActivationsSize s' = m_ActivationsSize s"
    and "m_ActivationSpace s' = m_ActivationSpace s"
    and "m_Models s' = m_Models s"
    and "m_ModelsAndBatchSize s' = m_ModelsAndBatchSize s"
    and "m_BindingsStack s' = None \<longleftrightarrow> m_BindingsStack s = None"
  using assms
  by (auto simp: build_graph_def Let_def split: option.splits if_splits prod.splits)


lemma build_graph_success:
  assumes "build_graph cuda s ((name, b), model) = (Inr u, s')"
  shows "\<exists>ctx0 space stack bindings.
    map_of (m_ExecutionContexts s) name = Some ctx0 \<and>
    m_ActivationSpace s = Some space \<and>
    m_BindingsStack s = Some stack \<and>
    m_BindingsStack s' = Some (Reset stack) \<and>
    (case map_of (m_DeviceBindings s) name of
       Some bs \<Rightarrow> bindings = bs \<and> m_DeviceBindings s' = m_DeviceBindings s
     | None \<Rightarrow>
         (\<exists>stack'. allocate_bindings stack (MaxBatchSize model) (Bindings model)
                     = Some (bindings, stack')) \<and>
         m_DeviceBindings s' = map_assign name bindings (m_DeviceBindings s)) \<and>
    m_ExecutionContexts s' =
      map_assign name (setDeviceMemory ctx0 (al_data space)) (m_ExecutionContexts s) \<and>
    m_Graphs s' =
      map_assign (name, b)
        \<lparr>g_stream = m_Stream s, g_context = setDeviceMemory ctx0 (al_data space),
         g_batch_size = b, g_bindings = bindings\<rparr> (m_Graphs s) \<and>
    m_GraphExecutors s' =
      map_assign (name, b)
        (GraphExec \<lparr>g_stream = m_Stream s, g_context = setDeviceMemory ctx0 (al_data space),
                   g_batch_size = b, g_bindings = bindings\<rparr>) (m_GraphExecutors s)"
  using assms
  by (auto simp: build_graph_def Let_def
      split: option.splits if_splits prod.splits
      dest: allocate_bindings_keeps_region)


lemma build_graph_executors:
  assumes "build_graph cuda s (k, model) = (Inr u, s')"
  shows "\<exists>g. map_of (m_GraphExecutors s') = (map_of (m_GraphExecutors s))(k \<mapsto> GraphExec g) \<and>
             map_of (m_DeviceBindings s') (fst k) = Some (g_bindings g)"
proof -
  obtain name b where k: "k = (name, b)" by (cases k)
  from build_graph_success [OF assms [unfolded k]] show ?thesis
    unfolding k
    by (cases "map_of (m_DeviceBindings s) name")
       (auto simp: map_of_map_assign)
qed

lemma build_graph_bindings_persist:
  assumes "build_graph cuda s item = (Inr u, s')"
    and "map_of (m_DeviceBindings s) n = Some bs"
  shows "map_of (m_DeviceBindings s') n = Some bs"
proof -
  obtain name b model where item: "item = ((name, b), model)" by (cases item) auto
  from build_graph_success [OF assms(1) [unfolded item]] assms(2) show ?thesis
    by (cases "map_of (m_DeviceBindings s) name")
       (auto simp: map_of_map_assign)
qed





subsection \<open>The loop of BuildGraphs, by induction on the entries\<close>

lemma build_loop_frame:
  "build_loop cuda items s = (r, s') \<Longrightarrow>
     m_Stream s' = m_Stream s \<and>
     m_DeviceStackSize s' = m_DeviceStackSize s \<and>
     m_ActivationsSize s' = m_ActivationsSize s \<and>
     m_ActivationSpace s' = m_ActivationSpace s \<and>
     m_Models s' = m_Models s \<and>
     m_ModelsAndBatchSize s' = m_ModelsAndBatchSize s \<and>
     (m_BindingsStack s' = None \<longleftrightarrow> m_BindingsStack s = None)"
proof (induction items arbitrary: s)
  case Nil
  then show ?case by simp
next
  case (Cons item items)
  obtain r1 s1 where b: "build_graph cuda s item = (r1, s1)"
    by (cases "build_graph cuda s item")
  note f = build_graph_frame [OF b]
  show ?case
  proof (cases r1)
    case (Inl e)
    with Cons.prems b f show ?thesis by simp
  next
    case (Inr u)
    with Cons.prems b have "build_loop cuda items s1 = (r, s')" by simp
    from Cons.IH [OF this] f show ?thesis by simp
  qed
qed

lemma build_loop_executor_keys:
  "build_loop cuda items s = (Inr u, s') \<Longrightarrow>
     dom (map_of (m_GraphExecutors s')) = dom (map_of (m_GraphExecutors s)) \<union> fst ` set items"
proof (induction items arbitrary: s)
  case Nil
  then show ?case by simp
next
  case (Cons item items)
  obtain r1 s1 where b: "build_graph cuda s item = (r1, s1)"
    by (cases "build_graph cuda s item")
  with Cons.prems obtain u1 where r1: "r1 = Inr u1" and rest: "build_loop cuda items s1 = (Inr u, s')"
    by (cases r1) auto
  from b r1 have "build_graph cuda s (fst item, snd item) = (Inr u1, s1)" by simp
  from build_graph_executors [OF this]
  have "dom (map_of (m_GraphExecutors s1)) = insert (fst item) (dom (map_of (m_GraphExecutors s)))"
    by auto
  with Cons.IH [OF rest] show ?case by auto
qed



subsection \<open>BuildGraphs as a whole\<close>

lemma BuildGraphs_noop:
  "m_Models s = [] \<Longrightarrow> BuildGraphs cuda s = (Inr (), s)"
  by (simp add: BuildGraphs_def)

lemma BuildGraphs_success_cases:
  assumes "BuildGraphs cuda s = (Inr u, s')"
  shows "(m_Models s = [] \<and> s' = s) \<or>
         (m_Models s \<noteq> [] \<and>
          (\<exists>p q. stack_memory cuda = Some p \<and> activation_memory cuda = Some q \<and>
             build_loop cuda (m_ModelsAndBatchSize s)
               (s\<lparr>m_BindingsStack :=
                     Some (MemoryStack_new p (stack_alignment cuda) (m_DeviceStackSize s)),
                  m_ActivationSpace :=
                     Some \<lparr>al_data = q, al_size = m_ActivationsSize s\<rparr>\<rparr>) = (Inr u, s')))"
  using assms
  by (auto simp: BuildGraphs_def Let_def split: if_splits option.splits)

lemma BuildGraphs_frame:
  assumes "BuildGraphs cuda s = (r, s')"
  shows "m_Stream s' = m_Stream s \<and>
     m_DeviceStackSize s' = m_DeviceStackSize s \<and>
     m_ActivationsSize s' = m_ActivationsSize s \<and>
     m_Models s' = m_Models s \<and>
     m_ModelsAndBatchSize s' = m_ModelsAndBatchSize s"
  using assms
  by (auto simp: BuildGraphs_def Let_def split: if_splits option.splits
      dest!: build_loop_frame)

lemma BuildGraphs_allocates:
  assumes "BuildGraphs cuda s = (Inr u, s')" and "m_Models s \<noteq> []"
  shows "m_BindingsStack s' \<noteq> None"
  using BuildGraphs_success_cases [OF assms(1)] assms(2)
  by (auto dest!: build_loop_frame)

lemma BuildGraphs_stays_built:
  assumes "BuildGraphs cuda s = (Inr u, s')" and "m_BindingsStack s \<noteq> None"
  shows "m_BindingsStack s' \<noteq> None"
  using BuildGraphs_success_cases [OF assms(1)] assms(2)
  by (auto dest!: build_loop_frame)

lemma BuildGraphs_executor_keys:
  assumes "BuildGraphs cuda s = (Inr u, s')" and "m_Models s \<noteq> []"
  shows "dom (map_of (m_GraphExecutors s')) =
           dom (map_of (m_GraphExecutors s)) \<union> fst ` set (m_ModelsAndBatchSize s)"
proof -
  from BuildGraphs_success_cases [OF assms(1)] assms(2)
  obtain p q where
    "build_loop cuda (m_ModelsAndBatchSize s)
       (s\<lparr>m_BindingsStack :=
             Some (MemoryStack_new p (stack_alignment cuda) (m_DeviceStackSize s)),
          m_ActivationSpace :=
             Some \<lparr>al_data = q, al_size = m_ActivationsSize s\<rparr>\<rparr>) = (Inr u, s')"
    by blast
  from build_loop_executor_keys [OF this] show ?thesis by simp
qed



subsection \<open>Runs of calls\<close>

lemma run_append:
  "run alignment (cs @ ds) s =
     (case run alignment cs s of
        (Inr u, s') \<Rightarrow> run alignment ds s'
      | (Inl e, s') \<Rightarrow> (Inl e, s'))"
  by (induction cs arbitrary: s) (auto split: prod.splits sum.splits)

lemma run_preserves:
  assumes step: "\<And>c s s' u. P s \<Longrightarrow> step alignment c s = (Inr u, s') \<Longrightarrow> P s'"
  shows "P s \<Longrightarrow> run alignment cs s = (Inr u, s') \<Longrightarrow> P s'"
proof (induction cs arbitrary: s)
  case Nil
  then show ?case by simp
next
  case (Cons c cs)
  obtain r1 s1 where c: "step alignment c s = (r1, s1)" by (cases "step alignment c s")
  with Cons.prems(2) obtain u1 where r1: "r1 = Inr u1"
    and rest: "run alignment cs s1 = (Inr u, s')"
    by (cases r1) auto
  from step [OF Cons.prems(1) c [unfolded r1]] have "P s1" .
  from Cons.IH [OF this rest] show ?case .
qed

lemma step_stays_built:
  assumes "m_BindingsStack s \<noteq> None" and "step alignment c s = (Inr u, s')"
  shows "m_BindingsStack s' \<noteq> None"
proof (cases c)
  case (CallRegisterModel name model b)
  with assms(2) have "fst (RegisterModel alignment s name model b) = Inr ()" by simp
  with assms(1) show ?thesis by (simp add: RegisterModel_succeeds_iff)
next
  case (CallBuildGraphs cuda)
  with assms show ?thesis by (auto dest: BuildGraphs_stays_built)
qed

lemma run_stays_built:
  "m_BindingsStack s \<noteq> None \<Longrightarrow> run alignment cs s = (Inr u, s') \<Longrightarrow>
     m_BindingsStack s' \<noteq> None"
  using step_stays_built
  by (rule run_preserves [where P = "\<lambda>s. m_BindingsStack s \<noteq> None"])

lemma step_keeps_registration:
  assumes "map_of (m_ModelsAndBatchSize s) k = Some m"
    and "step alignment c s = (Inr u, s')"
  shows "map_of (m_ModelsAndBatchSize s') k = Some m"
proof (cases c)
  case (CallRegisterModel name model b)
  with assms(2) have r: "RegisterModel alignment s name model b = (Inr u, s')" by simp
  then have "fst (RegisterModel alignment s name model b) = Inr ()" by simp
  then have "map_of (m_ModelsAndBatchSize s) (name, b) = None"
    by (simp add: RegisterModel_succeeds_iff)
  with assms(1) have "k \<noteq> (name, b)" by auto
  with assms(1) show ?thesis
    by (simp add: RegisterModel_success [OF r] map_of_map_assign)
next
  case (CallBuildGraphs cuda)
  with assms show ?thesis by (auto dest: BuildGraphs_frame)
qed

lemma run_keeps_registration:
  "map_of (m_ModelsAndBatchSize s) k = Some m \<Longrightarrow> run alignment cs s = (Inr u, s') \<Longrightarrow>
     map_of (m_ModelsAndBatchSize s') k = Some m"
  using step_keeps_registration
  by (rule run_preserves [where P = "\<lambda>s. map_of (m_ModelsAndBatchSize s) k = Some m"])

subsection \<open>The scenario, evaluated\<close>

lemma scenario_new: "GraphWorkspace_new (Some 7) = Inr ws_fresh"
  by (simp add: GraphWorkspace_new_def ws_fresh_def)

lemma scenario_register_A4: "RegisterModel 256 ws_fresh ''A'' model_A 4 = (Inr (), ws_A4)"
  by (simp add: RegisterModel_def ws_fresh_def ws_A4_def model_A_def MakeKey_def Align_def
      SetName_def GetBindingsCount_def CreateExecutionContext_def Let_def)

lemma scenario_register_A8: "RegisterModel 256 ws_A4 ''A'' model_A 8 = (Inr (), ws_A4_A8)"
  by (simp add: RegisterModel_def ws_fresh_def ws_A4_def ws_A4_A8_def model_A_def MakeKey_def
      Align_def SetName_def GetBindingsCount_def CreateExecutionContext_def Let_def)

lemma scenario_build: "BuildGraphs device_ok ws_A4_A8 = (Inr (), ws_built)"
  by (simp add: BuildGraphs_def build_graph_def ws_fresh_def ws_A4_def ws_A4_A8_def
      ws_built_def graph_A_def model_A_def device_ok_def MemoryStack_new_def Allocate_def
      Reset_def setDeviceMemory_def Let_def)

lemma scenario_run:
  "run 256 [CallRegisterModel ''A'' model_A 4, CallRegisterModel ''A'' model_A 8,
            CallBuildGraphs device_ok] ws_fresh = (Inr (), ws_built)"
  by (simp add: scenario_register_A4 scenario_register_A8 scenario_build)

lemma scenario_collision:
  "RegisterModel 256 ws_A4 ''A'' model_A 4 = (Inl (LogFatal ''Model collsion''), ws_A4)"
  by (simp add: RegisterModel_def ws_fresh_def ws_A4_def model_A_def MakeKey_def)

lemma RegisterModel_refused:
  assumes "fst (RegisterModel alignment s name model batch_size) \<noteq> Inr ()"
  shows "\<exists>f. RegisterModel alignment s name model batch_size = (Inl f, s) \<and> is_fatal f"
proof -
  obtain r s3 where r: "RegisterModel alignment s name model batch_size = (r, s3)"
    by (cases "RegisterModel alignment s name model batch_size")
  show ?thesis
  proof (cases r)
    case (Inl f)
    with r RegisterModel_failure [of alignment s name model batch_size f s3]
    show ?thesis by simp
  next
    case (Inr u)
    with r assms show ?thesis by simp
  qed
qed

subsection \<open>Rounding up and the sizing maxima\<close>

lemma round_up_exact:
  assumes "n mod b = 0"
  shows "round_up n b = n"
proof (cases "b = 0")
  case True
  with assms show ?thesis by (simp add: round_up_def)
next
  case False
  from assms obtain q where n: "n = b * q" by (auto simp: mod_eq_0_iff_dvd)
  have "(b * q + b - 1) div b = q"
    by (rule div_nat_eqI) (use False in auto)
  then show ?thesis by (simp add: round_up_def n)
qed

lemma round_up_inexact:
  assumes "0 < b" and "n mod b \<noteq> 0"
  shows "round_up n b = n + b - n mod b"
proof -
  define q r where "q = n div b" and "r = n mod b"
  have n: "n = b * q + r" by (simp add: q_def r_def)
  have r: "0 < r" "r < b" using assms by (simp_all add: r_def)
  have "(b * q + r + b - 1) div b = Suc q"
    by (rule div_nat_eqI) (use r in auto)
  then have "round_up n b = Suc q * b" by (simp add: round_up_def n)
  also have "\<dots> = n + b - r" using r by (simp add: n)
  finally show ?thesis by (simp add: r_def)
qed

lemma round_up_bounds:
  assumes "0 < b"
  shows "b dvd round_up n b \<and> n \<le> round_up n b \<and> round_up n b < n + b"
proof (cases "n mod b = 0")
  case True
  with assms show ?thesis by (simp add: round_up_exact mod_eq_0_iff_dvd)
next
  case False
  have lt: "n mod b < b" using assms by simp
  have le: "n mod b \<le> n" by simp
  have "b dvd round_up n b" by (simp add: round_up_def)
  moreover have "n \<le> n + b - n mod b" using lt by simp
  moreover have "n + b - n mod b < n + b"
  proof -
    from False have "0 < n mod b" by simp
    with le show ?thesis by linarith
  qed
  ultimately show ?thesis using assms False by (simp add: round_up_inexact)
qed

lemma Align_is_round_up:
  assumes "round_up (unat x) 131072 < 2 ^ 64"
  shows "unat (Align x (128 * 1024)) = round_up (unat x) 131072"
proof -
  have m: "unat (x mod 131072) = unat x mod 131072" by (simp add: unat_mod)
  show ?thesis
  proof (cases "unat x mod 131072 = 0")
    case True
    with m have "x mod 131072 = 0" by (simp add: unat_eq_0)
    with True show ?thesis by (simp add: Align_def round_up_exact)
  next
    case False
    have nz: "x mod 131072 \<noteq> 0"
    proof
      assume "x mod 131072 = 0"
      then have "unat (x mod 131072) = unat (0 :: 64 word)" by (rule arg_cong)
      with m False show False by (metis unsigned_0)
    qed
    have ru: "round_up (unat x) 131072 = unat x + 131072 - unat x mod 131072"
      using False by (simp add: round_up_inexact)
    have le: "unat x mod 131072 \<le> unat x + 131072" by (simp add: trans_le_add1)
    have "x + 131072 - x mod 131072 =
          of_nat (unat x) + of_nat 131072 - of_nat (unat (x mod 131072))"
      by simp
    also have "\<dots> = of_nat (unat x + 131072 - unat x mod 131072)"
      using le by (simp add: m of_nat_diff)
    finally have "unat (x + 131072 - x mod 131072) =
        (unat x + 131072 - unat x mod 131072) mod 2 ^ 64"
      by (simp only: unat_of_nat) simp
    with assms ru nz show ?thesis by (simp add: Align_def)
  qed
qed

lemma round_up_ge: "n \<le> round_up n 131072"
  using round_up_bounds [of 131072 n] by simp

lemma device_requirement_spec:
  assumes "spec_binding_requirement alignment model < 2 ^ 64"
  shows "unat (device_requirement alignment model) = spec_binding_requirement alignment model"
proof -
  let ?n = "unat (BindingMemorySize model) + length (Bindings model) * unat alignment"
  have "?n \<le> round_up ?n 131072" by (rule round_up_ge)
  with assms have n: "?n < 2 ^ 64" by (simp add: spec_binding_requirement_def)
  have "unat (BindingMemorySize model + GetBindingsCount model * alignment) = ?n mod 2 ^ 64"
    by (simp add: GetBindingsCount_def unat_word_ariths unat_of_nat mod_simps)
  with n have "unat (BindingMemorySize model + GetBindingsCount model * alignment) = ?n"
    by simp
  with assms Align_is_round_up [of "BindingMemorySize model + GetBindingsCount model * alignment"]
  show ?thesis
    by (simp add: device_requirement_def spec_binding_requirement_def)
qed

lemma activations_requirement_spec:
  assumes "spec_activation_requirement model < 2 ^ 64"
  shows "unat (activations_requirement model) = spec_activation_requirement model"
  using assms Align_is_round_up [of "ActivationsMemorySize model"]
  by (simp add: activations_requirement_def spec_activation_requirement_def)

lemma Max_insert_max:
  fixes a :: "'a::linorder"
  assumes "finite S"
  shows "Max (insert (max a b) S) = Max (insert a (insert b S))"
proof (cases "S = {}")
  case True
  then show ?thesis by (simp add: max.commute)
next
  case False
  with assms show ?thesis by (simp add: max.assoc max.left_commute max.commute)
qed

lemma step_sizes:
  assumes "step alignment c s = (Inr u, s')"
  shows "m_DeviceStackSize s' =
           Max (insert (m_DeviceStackSize s) (device_requirement alignment ` set (registered_models [c])))
       \<and> m_ActivationsSize s' =
           Max (insert (m_ActivationsSize s) (activations_requirement ` set (registered_models [c])))"
proof (cases c)
  case (CallRegisterModel name model b)
  with assms have r: "RegisterModel alignment s name model b = (Inr u, s')" by simp
  show ?thesis
    by (simp add: CallRegisterModel RegisterModel_success [OF r] device_requirement_def
        activations_requirement_def max.commute)
next
  case (CallBuildGraphs cuda)
  with assms show ?thesis by (auto dest: BuildGraphs_frame)
qed

lemma registered_models_Cons:
  "set (registered_models (c # cs)) = set (registered_models [c]) \<union> set (registered_models cs)"
  by (cases c) auto

lemma run_sizes:
  "run alignment cs s = (Inr u, s') \<Longrightarrow>
     m_DeviceStackSize s' =
       Max (insert (m_DeviceStackSize s) (device_requirement alignment ` set (registered_models cs)))
   \<and> m_ActivationsSize s' =
       Max (insert (m_ActivationsSize s) (activations_requirement ` set (registered_models cs)))"
proof (induction cs arbitrary: s)
  case Nil
  then show ?case by simp
next
  case (Cons c cs)
  obtain r1 s1 where c: "step alignment c s = (r1, s1)" by (cases "step alignment c s")
  with Cons.prems obtain u1 where r1: "r1 = Inr u1"
    and rest: "run alignment cs s1 = (Inr u, s')"
    by (cases r1) auto
  note one = step_sizes [OF c [unfolded r1]]
  note ih = Cons.IH [OF rest]
  show ?case
  proof (cases c)
    case (CallRegisterModel name model b)
    with one ih show ?thesis
      by (simp add: Max_insert_max insert_commute)
  next
    case (CallBuildGraphs cuda)
    with one ih show ?thesis by simp
  qed
qed

lemma run_sizes_grow:
  assumes "run alignment cs s = (Inr u, s')"
  shows "m_DeviceStackSize s \<le> m_DeviceStackSize s' \<and> m_ActivationsSize s \<le> m_ActivationsSize s'"
  using run_sizes [OF assms] by simp


lemma unat_Max_image:
  fixes f :: "'a \<Rightarrow> size_t"
  assumes "finite S" and "\<forall>m \<in> S. unat (f m) = g m"
  shows "unat (Max (insert 0 (f ` S))) = Max (insert 0 (g ` S))"
proof -
  have "mono (unat :: size_t \<Rightarrow> nat)" by (rule monoI) (simp add: word_le_nat_alt)
  then have "unat (Max (insert 0 (f ` S))) = Max (unat ` insert 0 (f ` S))"
    using assms(1) by (intro mono_Max_commute) auto
  also have "unat ` insert 0 (f ` S) = insert 0 ((\<lambda>m. unat (f m)) ` S)"
    by (simp add: image_image)
  also have "(\<lambda>m. unat (f m)) ` S = g ` S"
    using assms(2) by (intro image_cong) auto
  finally show ?thesis .
qed

lemma scenario_two_registrations:
  "run 256 [CallRegisterModel ''A'' model_A 4, CallRegisterModel ''A'' model_A 8] ws_fresh
     = (Inr (), ws_A4_A8)"
  by (simp add: scenario_register_A4 scenario_register_A8)

lemma scenario_requirements:
  "spec_binding_requirement 256 model_A = 131072"
  "spec_activation_requirement model_A = 131072"
  by (simp_all add: spec_binding_requirement_def spec_activation_requirement_def
      round_up_def model_A_def)

subsection \<open>Invariants of reachable workspaces\<close>

lemma build_graph_keeps_baked:
  assumes "build_graph cuda s item = (Inr u, s')" and "executors_use_bindings s"
  shows "executors_use_bindings s'"
  unfolding executors_use_bindings_def
proof (intro allI impI)
  fix k g
  assume e: "map_of (m_GraphExecutors s') k = Some (GraphExec g)"
  from assms(1) have b: "build_graph cuda s (fst item, snd item) = (Inr u, s')" by simp
  from build_graph_executors [OF b] obtain g0 where
    m: "map_of (m_GraphExecutors s') = (map_of (m_GraphExecutors s))(fst item \<mapsto> GraphExec g0)"
    and d: "map_of (m_DeviceBindings s') (fst (fst item)) = Some (g_bindings g0)"
    by blast
  show "map_of (m_DeviceBindings s') (fst k) = Some (g_bindings g)"
  proof (cases "k = fst item")
    case True
    with e m have "g = g0" by simp
    with d True show ?thesis by simp
  next
    case False
    with e m have "map_of (m_GraphExecutors s) k = Some (GraphExec g)" by simp
    with assms(2) have "map_of (m_DeviceBindings s) (fst k) = Some (g_bindings g)"
      unfolding executors_use_bindings_def by blast
    from build_graph_bindings_persist [OF assms(1) this] show ?thesis .
  qed
qed

lemma build_loop_keeps_baked:
  "build_loop cuda items s = (Inr u, s') \<Longrightarrow> executors_use_bindings s \<Longrightarrow>
     executors_use_bindings s'"
proof (induction items arbitrary: s)
  case Nil
  then show ?case by simp
next
  case (Cons item items)
  obtain r1 s1 where b: "build_graph cuda s item = (r1, s1)"
    by (cases "build_graph cuda s item")
  with Cons.prems(1) obtain u1 where r1: "r1 = Inr u1"
    and rest: "build_loop cuda items s1 = (Inr u, s')"
    by (cases r1) auto
  from build_graph_keeps_baked [OF b [unfolded r1] Cons.prems(2)]
  show ?case by (rule Cons.IH [OF rest])
qed

lemma BuildGraphs_keeps_baked:
  assumes "BuildGraphs cuda s = (Inr u, s')" and "executors_use_bindings s"
  shows "executors_use_bindings s'"
proof (cases "m_Models s = []")
  case True
  with BuildGraphs_success_cases [OF assms(1)] assms(2) show ?thesis by auto
next
  case False
  with BuildGraphs_success_cases [OF assms(1)]
  obtain p q where
    l: "build_loop cuda (m_ModelsAndBatchSize s)
       (s\<lparr>m_BindingsStack :=
             Some (MemoryStack_new p (stack_alignment cuda) (m_DeviceStackSize s)),
          m_ActivationSpace :=
             Some \<lparr>al_data = q, al_size = m_ActivationsSize s\<rparr>\<rparr>) = (Inr u, s')"
    by blast
  from assms(2) have "executors_use_bindings
       (s\<lparr>m_BindingsStack :=
             Some (MemoryStack_new p (stack_alignment cuda) (m_DeviceStackSize s)),
          m_ActivationSpace :=
             Some \<lparr>al_data = q, al_size = m_ActivationsSize s\<rparr>\<rparr>)"
    by (simp add: executors_use_bindings_def)
  from build_loop_keeps_baked [OF l this] show ?thesis .
qed

lemma new_workspace_inv:
  "GraphWorkspace_new stream = Inr w \<Longrightarrow> workspace_inv w"
  by (auto simp: GraphWorkspace_new_def workspace_inv_def executors_use_bindings_def
      split: option.splits)

lemma step_keeps_inv:
  assumes "workspace_inv s" and "step alignment c s = (Inr u, s')"
  shows "workspace_inv s'"
proof (cases c)
  case (CallRegisterModel name model b)
  with assms(2) have r: "RegisterModel alignment s name model b = (Inr u, s')" by simp
  then have "fst (RegisterModel alignment s name model b) = Inr ()" by simp
  then have "m_BindingsStack s = None" by (simp add: RegisterModel_succeeds_iff)
  with assms(1) show ?thesis
    by (simp add: RegisterModel_success [OF r] workspace_inv_def executors_use_bindings_def
        map_assign_not_Nil sorted_map_assign)
next
  case (CallBuildGraphs cuda)
  with assms(2) have b: "BuildGraphs cuda s = (Inr u, s')" by simp
  note f = BuildGraphs_frame [OF b]
  show ?thesis
  proof (cases "m_Models s = []")
    case True
    with BuildGraphs_success_cases [OF b] assms(1) show ?thesis by auto
  next
    case False
    from BuildGraphs_allocates [OF b False] have "m_BindingsStack s' \<noteq> None" .
    moreover from assms(1) have "executors_use_bindings s" by (simp add: workspace_inv_def)
    from BuildGraphs_keeps_baked [OF b this] have "executors_use_bindings s'" .
    ultimately show ?thesis using assms(1) f unfolding workspace_inv_def by auto
  qed
qed

lemma run_keeps_inv:
  "workspace_inv s \<Longrightarrow> run alignment cs s = (Inr u, s') \<Longrightarrow> workspace_inv s'"
  using step_keeps_inv by (rule run_preserves [where P = workspace_inv])


subsection \<open>Which keys have an executor\<close>

lemma registered_keys_append:
  "registered_keys (cs @ ds) = registered_keys cs @ registered_keys ds"
  by (induction cs rule: registered_keys.induct) auto

lemma step_registered_keys:
  assumes "step alignment c s = (Inr u, s')"
  shows "dom (map_of (m_ModelsAndBatchSize s')) =
           dom (map_of (m_ModelsAndBatchSize s)) \<union> set (registered_keys [c])"
proof (cases c)
  case (CallRegisterModel name model b)
  with assms have r: "RegisterModel alignment s name model b = (Inr u, s')" by simp
  show ?thesis
    by (simp add: CallRegisterModel RegisterModel_success [OF r] map_of_map_assign MakeKey_def)
next
  case (CallBuildGraphs cuda)
  with assms show ?thesis by (auto dest: BuildGraphs_frame)
qed

lemma run_registered_keys:
  "run alignment cs s = (Inr u, s') \<Longrightarrow>
     dom (map_of (m_ModelsAndBatchSize s')) =
       dom (map_of (m_ModelsAndBatchSize s)) \<union> set (registered_keys cs)"
proof (induction cs arbitrary: s)
  case Nil
  then show ?case by simp
next
  case (Cons c cs)
  obtain r1 s1 where c: "step alignment c s = (r1, s1)" by (cases "step alignment c s")
  with Cons.prems obtain u1 where r1: "r1 = Inr u1"
    and rest: "run alignment cs s1 = (Inr u, s')"
    by (cases r1) auto
  have "registered_keys (c # cs) = registered_keys [c] @ registered_keys cs"
    using registered_keys_append [of "[c]" cs] by simp
  with step_registered_keys [OF c [unfolded r1]] Cons.IH [OF rest]
  show ?case by auto
qed

lemma built_after_registering_snoc:
  "built_after_registering (cs @ [c]) k \<longleftrightarrow>
     built_after_registering cs k \<or>
     ((\<exists>cuda. c = CallBuildGraphs cuda) \<and> k \<in> set (registered_keys cs))"
proof
  assume "built_after_registering (cs @ [c]) k"
  then obtain pre cuda post where
    split: "cs @ [c] = pre @ CallBuildGraphs cuda # post" and k: "k \<in> set (registered_keys pre)"
    unfolding built_after_registering_def by blast
  show "built_after_registering cs k \<or>
     ((\<exists>cuda. c = CallBuildGraphs cuda) \<and> k \<in> set (registered_keys cs))"
  proof (cases post rule: rev_cases)
    case Nil
    with split have "cs = pre" and "c = CallBuildGraphs cuda" by simp_all
    with k show ?thesis by blast
  next
    case (snoc post' c')
    with split have "cs @ [c] = (pre @ CallBuildGraphs cuda # post') @ [c']" by simp
    then have "cs = pre @ CallBuildGraphs cuda # post'" by (simp only: append1_eq_conv)
    with k show ?thesis unfolding built_after_registering_def by blast
  qed
next
  assume "built_after_registering cs k \<or>
     ((\<exists>cuda. c = CallBuildGraphs cuda) \<and> k \<in> set (registered_keys cs))"
  then show "built_after_registering (cs @ [c]) k"
  proof
    assume "built_after_registering cs k"
    then obtain pre cuda post where "cs = pre @ CallBuildGraphs cuda # post"
      and "k \<in> set (registered_keys pre)"
      unfolding built_after_registering_def by blast
    then have "cs @ [c] = pre @ CallBuildGraphs cuda # (post @ [c]) \<and>
               k \<in> set (registered_keys pre)" by simp
    then show ?thesis unfolding built_after_registering_def by blast
  next
    assume "(\<exists>cuda. c = CallBuildGraphs cuda) \<and> k \<in> set (registered_keys cs)"
    then obtain cuda where "cs @ [c] = cs @ CallBuildGraphs cuda # [] \<and>
               k \<in> set (registered_keys cs)" by auto
    then show ?thesis unfolding built_after_registering_def by blast
  qed
qed

lemma run_snoc:
  assumes "run alignment (cs @ [c]) s = (Inr u, s')"
  obtains u1 s1 where "run alignment cs s = (Inr u1, s1)" and "step alignment c s1 = (Inr u, s')"
proof -
  obtain r1 s1 where r: "run alignment cs s = (r1, s1)" by (cases "run alignment cs s")
  with assms obtain u1 where r1: "r1 = Inr u1" and "run alignment [c] s1 = (Inr u, s')"
    by (cases r1) (auto simp: run_append)
  then have "step alignment c s1 = (Inr u, s')"
    by (cases "step alignment c s1"; cases "fst (step alignment c s1)") auto
  with r r1 that show ?thesis by blast
qed

lemma run_executor_keys:
  assumes "GraphWorkspace_new stream = Inr w"
  shows "run alignment cs w = (Inr u, s) \<Longrightarrow>
     dom (map_of (m_GraphExecutors s)) = {k. built_after_registering cs k}"
proof (induction cs arbitrary: s u rule: rev_induct)
  case Nil
  with assms have "m_GraphExecutors s = []"
    by (auto simp: GraphWorkspace_new_def split: option.splits)
  then show ?case by (simp add: built_after_registering_def)
next
  case (snoc c cs)
  from snoc.prems obtain u1 s1 where r: "run alignment cs w = (Inr u1, s1)"
    and c: "step alignment c s1 = (Inr u, s)" by (rule run_snoc)
  note ih = snoc.IH [OF r]
  from assms have "m_ModelsAndBatchSize w = []"
    by (auto simp: GraphWorkspace_new_def split: option.splits)
  with run_registered_keys [OF r]
  have keys: "dom (map_of (m_ModelsAndBatchSize s1)) = set (registered_keys cs)" by simp
  have inv: "workspace_inv s1" using new_workspace_inv [OF assms] r by (rule run_keeps_inv)
  show ?case
  proof (cases c)
    case (CallRegisterModel name model b)
    with c have "RegisterModel alignment s1 name model b = (Inr u, s)" by simp
    from RegisterModel_success [OF this]
    have "m_GraphExecutors s = m_GraphExecutors s1" by simp
    with ih CallRegisterModel show ?thesis by (simp add: built_after_registering_snoc)
  next
    case (CallBuildGraphs cuda)
    with c have b: "BuildGraphs cuda s1 = (Inr u, s)" by simp
    show ?thesis
    proof (cases "m_Models s1 = []")
      case True
      with inv have "m_ModelsAndBatchSize s1 = []" by (simp add: workspace_inv_def)
      with keys have "set (registered_keys cs) = {}" by simp
      moreover from BuildGraphs_success_cases [OF b] True have "s = s1" by simp
      ultimately show ?thesis using ih by (simp add: built_after_registering_snoc)
    next
      case False
      from BuildGraphs_executor_keys [OF b False] ih keys CallBuildGraphs
      show ?thesis
        by (auto simp: built_after_registering_snoc dom_map_of_conv_image_fst)
    qed
  qed
qed

subsection \<open>Bindings and executors along a run\<close>






subsection \<open>The addresses the stack hands out\<close>







subsection \<open>The second scenario, evaluated\<close>








section \<open>The claims\<close>

text \<open>
  C10. Every lookup operation (\<open>IsModelRegistered\<close>, \<open>IsGraphAvailable\<close>, \<open>GetGraph\<close>,
  \<open>DeviceBindingsByName\<close>) leaves the whole workspace unchanged, in any workspace state
  (before or after \<open>BuildGraphs\<close>) and also on the not-found paths of \<open>GetGraph\<close> and
  \<open>DeviceBindingsByName\<close>.
\<close>

theorem lookups_leave_workspace_unchanged:
  "snd (IsModelRegistered s name) = s \<and>
   snd (IsGraphAvailable s name batch_size) = s \<and>
   snd (GetGraph s name batch_size) = s \<and>
   snd (DeviceBindingsByName s name) = s"
  by (simp add: IsModelRegistered_def IsGraphAvailable_def GetGraph_def
      DeviceBindingsByName_def Let_def split: option.splits)

text \<open>
  C2. When no graph executor is cached for (name, batch size), \<open>GetGraph\<close> signals a
  \<open>std::runtime_error\<close>, and when no device bindings are cached for a name,
  \<open>DeviceBindingsByName\<close> does: an exception the caller can catch, not a fatal abort, and
  the workspace is the same afterwards.
\<close>

theorem lookup_miss_is_recoverable:
  "(map_of (m_GraphExecutors s) (MakeKey name batch_size) = None \<longrightarrow>
      (\<exists>f. GetGraph s name batch_size = (Inl f, s) \<and> is_exception f \<and> \<not> is_fatal f)) \<and>
   (map_of (m_DeviceBindings s) name' = None \<longrightarrow>
      (\<exists>f. DeviceBindingsByName s name' = (Inl f, s) \<and> is_exception f \<and> \<not> is_fatal f))"
  by (simp add: GetGraph_def DeviceBindingsByName_def Let_def)

theorem lookup_miss_is_recoverable_witness:
  "map_of (m_GraphExecutors ws_built) (MakeKey ''A'' 2) = None \<and>
   (\<exists>f. GetGraph ws_built ''A'' 2 = (Inl f, ws_built) \<and> is_exception f \<and> \<not> is_fatal f) \<and>
   map_of (m_DeviceBindings ws_built) ''B'' = None \<and>
   (\<exists>f. DeviceBindingsByName ws_built ''B'' = (Inl f, ws_built) \<and> is_exception f \<and> \<not> is_fatal f)"
proof -
  have g: "map_of (m_GraphExecutors ws_built) (MakeKey ''A'' 2) = None"
    by (simp add: ws_built_def MakeKey_def)
  have b: "map_of (m_DeviceBindings ws_built) ''B'' = None"
    by (simp add: ws_built_def)
  note t = lookup_miss_is_recoverable
    [where s = ws_built and name = "''A''" and batch_size = 2 and name' = "''B''"]
  from t g have 1: "\<exists>f. GetGraph ws_built ''A'' 2 = (Inl f, ws_built) \<and> is_exception f \<and> \<not> is_fatal f"
    by (rule conjunct1 [THEN mp])
  from t b have 2: "\<exists>f. DeviceBindingsByName ws_built ''B'' = (Inl f, ws_built) \<and> is_exception f \<and> \<not> is_fatal f"
    by (rule conjunct2 [THEN mp])
  from g 1 b 2 show ?thesis by (intro conjI)
qed

text \<open>
  C7. For every model and every batch size strictly greater than the model's maximum
  batch size, \<open>RegisterModel\<close> fails fatally and the workspace is as before: the batch
  size is not clamped and nothing is registered.
\<close>

theorem batch_size_over_maximum_is_fatal:
  assumes "MaxBatchSize model < batch_size"
  shows "\<exists>f. RegisterModel alignment s name model batch_size = (Inl f, s) \<and> is_fatal f"
  using assms by (auto simp: RegisterModel_def not_le)

theorem batch_size_over_maximum_is_fatal_witness:
  "MaxBatchSize model_A < 9 \<and>
   (\<exists>f. RegisterModel 256 ws_fresh ''A'' model_A 9 = (Inl f, ws_fresh) \<and> is_fatal f)"
proof -
  have h: "MaxBatchSize model_A < 9" by (simp add: model_A_def)
  from h batch_size_over_maximum_is_fatal [OF h, of 256 ws_fresh "''A''"]
  show ?thesis by blast
qed

text \<open>
  C8. \<open>BuildGraphs\<close> on a workspace with zero registered models is a no-op: it raises no
  error and returns the workspace unchanged, so neither the device memory stack nor the
  activation allocator is created.
\<close>

theorem BuildGraphs_without_models_is_noop:
  assumes "length (m_Models s) = 0"
  shows "BuildGraphs cuda s = (Inr (), s)"
  using assms by (simp add: BuildGraphs_def)

theorem BuildGraphs_without_models_is_noop_witness:
  "length (m_Models ws_fresh) = 0 \<and> BuildGraphs device_ok ws_fresh = (Inr (), ws_fresh)"
proof -
  have h: "length (m_Models ws_fresh) = 0" by (simp add: ws_fresh_def)
  from h BuildGraphs_without_models_is_noop [OF h, of device_ok] show ?thesis by blast
qed

text \<open>
  C6. Registering the same (name, batch size) pair a second time fails fatally, whatever
  calls came in between and whatever model is passed; and every failure of
  \<open>RegisterModel\<close> is fatal and is raised with the workspace exactly as it was before
  the call.
\<close>

theorem duplicate_key_is_fatal_and_failures_mutate_nothing:
  "(RegisterModel alignment s name model batch_size = (Inr (), s1) \<and>
    run alignment cs s1 = (Inr (), s2) \<longrightarrow>
      (\<exists>f. RegisterModel alignment s2 name model' batch_size = (Inl f, s2) \<and> is_fatal f)) \<and>
   (RegisterModel alignment s name model batch_size = (Inl e, s') \<longrightarrow> is_fatal e \<and> s' = s)"
proof (intro conjI impI)
  assume a: "RegisterModel alignment s name model batch_size = (Inr (), s1) \<and>
    run alignment cs s1 = (Inr (), s2)"
  then have reg: "RegisterModel alignment s name model batch_size = (Inr (), s1)"
    and run: "run alignment cs s1 = (Inr (), s2)" by simp_all
  have "map_of (m_ModelsAndBatchSize s1) (name, batch_size) = Some (SetName model name)"
    by (simp add: RegisterModel_success [OF reg] map_of_map_assign)
  from run_keeps_registration [OF this run]
  have "map_of (m_ModelsAndBatchSize s2) (name, batch_size) \<noteq> None" by simp
  then have "fst (RegisterModel alignment s2 name model' batch_size) \<noteq> Inr ()"
    by (simp add: RegisterModel_succeeds_iff)
  then show "\<exists>f. RegisterModel alignment s2 name model' batch_size = (Inl f, s2) \<and> is_fatal f"
    by (rule RegisterModel_refused)
next
  assume "RegisterModel alignment s name model batch_size = (Inl e, s')"
  from RegisterModel_failure [OF this] show "is_fatal e" and "s' = s" by simp_all
qed

theorem duplicate_key_is_fatal_and_failures_mutate_nothing_witness:
  "RegisterModel 256 ws_fresh ''A'' model_A 4 = (Inr (), ws_A4) \<and>
   run 256 [CallRegisterModel ''A'' model_A 8] ws_A4 = (Inr (), ws_A4_A8) \<and>
   (\<exists>f. RegisterModel 256 ws_A4_A8 ''A'' model_A 4 = (Inl f, ws_A4_A8) \<and> is_fatal f) \<and>
   RegisterModel 256 ws_A4 ''A'' model_A 4 = (Inl (LogFatal ''Model collsion''), ws_A4) \<and>
   is_fatal (LogFatal ''Model collsion'')"
proof -
  have r: "run 256 [CallRegisterModel ''A'' model_A 8] ws_A4 = (Inr (), ws_A4_A8)"
    by (simp add: scenario_register_A8)
  note t = duplicate_key_is_fatal_and_failures_mutate_nothing
    [where alignment = 256 and s = ws_fresh and name = "''A''" and model = model_A
       and batch_size = 4 and ?s1.0 = ws_A4 and cs = "[CallRegisterModel ''A'' model_A 8]"
       and ?s2.0 = ws_A4_A8 and model' = model_A]
  from t [THEN conjunct1, THEN mp, OF conjI [OF scenario_register_A4 r]]
  have 1: "\<exists>f. RegisterModel 256 ws_A4_A8 ''A'' model_A 4 = (Inl f, ws_A4_A8) \<and> is_fatal f" .
  have 2: "is_fatal (LogFatal ''Model collsion'')" by simp
  from scenario_register_A4 r 1 scenario_collision 2 show ?thesis by (intro conjI)
qed

text \<open>
  C3, as stated: after \<open>BuildGraphs\<close> has been called, every \<open>RegisterModel\<close> fails
  fatally, also when no model was registered before the build. The code refuses
  registration when one of the two allocators exists, and a build without models
  returns before allocating: on a new workspace, \<open>BuildGraphs\<close> followed by
  \<open>RegisterModel\<close> succeeds.
\<close>

theorem registration_after_empty_build_succeeds:
  "BuildGraphs device_ok ws_fresh = (Inr (), ws_fresh) \<and>
   fst (RegisterModel 256 (snd (BuildGraphs device_ok ws_fresh)) ''A'' model_A 4) = Inr ()"
proof -
  have b: "BuildGraphs device_ok ws_fresh = (Inr (), ws_fresh)"
    by (simp add: BuildGraphs_def ws_fresh_def)
  show ?thesis by (simp add: b scenario_register_A4)
qed

text \<open>
  C3, amended: once \<open>BuildGraphs\<close> has completed on a workspace with at least one
  registered model, every later \<open>RegisterModel\<close>, for every name, model and batch size
  and after any further successful calls, fails with the fatal "not allowed after graph
  creation" and leaves the workspace as it is; a \<open>BuildGraphs\<close> on a workspace with no
  registered model leaves \<open>RegisterModel\<close> behaving as before the build.
\<close>

theorem registration_after_allocating_build_is_fatal:
  "(m_Models s \<noteq> [] \<and> BuildGraphs cuda s = (Inr (), s1) \<and>
    run alignment cs s1 = (Inr (), s2) \<longrightarrow>
      RegisterModel alignment s2 name model batch_size =
        (Inl (LogFatal ''Registration of new models is not allowed after graph creation''), s2)) \<and>
   (m_Models s = [] \<longrightarrow>
      RegisterModel alignment (snd (BuildGraphs cuda s)) name model batch_size =
      RegisterModel alignment s name model batch_size)"
proof (intro conjI impI)
  assume a: "m_Models s \<noteq> [] \<and> BuildGraphs cuda s = (Inr (), s1) \<and>
    run alignment cs s1 = (Inr (), s2)"
  then have "m_BindingsStack s1 \<noteq> None"
    using BuildGraphs_allocates [of cuda s "()" s1] by simp
  with a have "m_BindingsStack s2 \<noteq> None"
    using run_stays_built [of s1 alignment cs "()" s2] by simp
  then show "RegisterModel alignment s2 name model batch_size =
        (Inl (LogFatal ''Registration of new models is not allowed after graph creation''), s2)"
    by (simp add: RegisterModel_def)
next
  assume "m_Models s = []"
  then show "RegisterModel alignment (snd (BuildGraphs cuda s)) name model batch_size =
      RegisterModel alignment s name model batch_size"
    by (simp add: BuildGraphs_noop)
qed

theorem registration_after_allocating_build_is_fatal_witness:
  "m_Models ws_A4_A8 \<noteq> [] \<and> BuildGraphs device_ok ws_A4_A8 = (Inr (), ws_built) \<and>
   run 256 [] ws_built = (Inr (), ws_built) \<and>
   RegisterModel 256 ws_built ''B'' model_A 1 =
     (Inl (LogFatal ''Registration of new models is not allowed after graph creation''), ws_built) \<and>
   m_Models ws_fresh = [] \<and>
   RegisterModel 256 (snd (BuildGraphs device_ok ws_fresh)) ''B'' model_A 1 =
     RegisterModel 256 ws_fresh ''B'' model_A 1"
proof -
  have m: "m_Models ws_A4_A8 \<noteq> []" by (simp add: ws_A4_A8_def ws_A4_def ws_fresh_def)
  have r: "run 256 [] ws_built = (Inr (), ws_built)" by simp
  have e: "m_Models ws_fresh = []" by (simp add: ws_fresh_def)
  note t = registration_after_allocating_build_is_fatal
    [where s = ws_A4_A8 and cuda = device_ok and ?s1.0 = ws_built and alignment = 256
       and cs = "[]" and ?s2.0 = ws_built and name = "''B''" and model = model_A
       and batch_size = 1]
  note u = registration_after_allocating_build_is_fatal
    [where s = ws_fresh and cuda = device_ok and alignment = 256
       and name = "''B''" and model = model_A and batch_size = 1]
  from t [THEN conjunct1, THEN mp, OF conjI [OF m conjI [OF scenario_build r]]]
  have 1: "RegisterModel 256 ws_built ''B'' model_A 1 =
     (Inl (LogFatal ''Registration of new models is not allowed after graph creation''), ws_built)" .
  from u [THEN conjunct2, THEN mp, OF e]
  have 2: "RegisterModel 256 (snd (BuildGraphs device_ok ws_fresh)) ''B'' model_A 1 =
     RegisterModel 256 ws_fresh ''B'' model_A 1" .
  from m scenario_build r 1 e 2 show ?thesis by (intro conjI)
qed

text \<open>
  C9, as stated: once a name is registered, every later \<open>RegisterModel\<close> with that name
  fails, at any batch size. The collision check is on the (name, batch size) key: with
  "A" registered at batch size 4, registering "A" at batch size 8 succeeds.
\<close>

theorem registered_name_registers_again:
  "IsModelRegistered ws_A4 ''A'' = (Inr True, ws_A4) \<and>
   RegisterModel 256 ws_A4 ''A'' model_A 8 = (Inr (), ws_A4_A8)"
proof -
  have "IsModelRegistered ws_A4 ''A'' = (Inr True, ws_A4)"
    by (simp add: IsModelRegistered_def ws_A4_def ws_fresh_def)
  with scenario_register_A8 show ?thesis by (intro conjI)
qed

text \<open>
  C9, amended: a registration is identified by its (name, batch size) key. Before any
  allocation and with a batch size within the model's maximum, \<open>RegisterModel\<close> fails
  (fatally, workspace unchanged) when that key is already registered, and otherwise
  succeeds, also for a name that is already registered: the model and the execution
  context stored under the name are replaced and the key is added.
\<close>

theorem same_name_fails_only_on_same_batch_size:
  assumes "m_BindingsStack s = None" and "m_ActivationSpace s = None"
    and "batch_size \<le> MaxBatchSize model"
  shows "(map_of (m_ModelsAndBatchSize s) (name, batch_size) \<noteq> None \<longrightarrow>
            (\<exists>f. RegisterModel alignment s name model batch_size = (Inl f, s) \<and> is_fatal f)) \<and>
         (map_of (m_ModelsAndBatchSize s) (name, batch_size) = None \<longrightarrow>
            (\<exists>s'. RegisterModel alignment s name model batch_size = (Inr (), s') \<and>
               map_of (m_Models s') name = Some (SetName model name) \<and>
               map_of (m_ExecutionContexts s') name =
                 Some (CreateExecutionContext (SetName model name)) \<and>
               map_of (m_ModelsAndBatchSize s') =
                 (map_of (m_ModelsAndBatchSize s))((name, batch_size) \<mapsto> SetName model name)))"
proof (intro conjI impI)
  assume "map_of (m_ModelsAndBatchSize s) (name, batch_size) \<noteq> None"
  then have "fst (RegisterModel alignment s name model batch_size) \<noteq> Inr ()"
    by (simp add: RegisterModel_succeeds_iff)
  then show "\<exists>f. RegisterModel alignment s name model batch_size = (Inl f, s) \<and> is_fatal f"
    by (rule RegisterModel_refused)
next
  assume "map_of (m_ModelsAndBatchSize s) (name, batch_size) = None"
  with assms have "fst (RegisterModel alignment s name model batch_size) = Inr ()"
    by (simp add: RegisterModel_succeeds_iff)
  then obtain s' where r: "RegisterModel alignment s name model batch_size = (Inr (), s')"
    by (cases "RegisterModel alignment s name model batch_size") auto
  show "\<exists>s'. RegisterModel alignment s name model batch_size = (Inr (), s') \<and>
               map_of (m_Models s') name = Some (SetName model name) \<and>
               map_of (m_ExecutionContexts s') name =
                 Some (CreateExecutionContext (SetName model name)) \<and>
               map_of (m_ModelsAndBatchSize s') =
                 (map_of (m_ModelsAndBatchSize s))((name, batch_size) \<mapsto> SetName model name)"
    using r by (simp add: RegisterModel_success [OF r] map_of_map_assign)
qed


theorem same_name_fails_only_on_same_batch_size_witness:
  "m_BindingsStack ws_A4 = None \<and> m_ActivationSpace ws_A4 = None \<and>
   8 \<le> MaxBatchSize model_A \<and>
   map_of (m_ModelsAndBatchSize ws_A4) (''A'', 8) = None \<and>
   (\<exists>s'. RegisterModel 256 ws_A4 ''A'' model_A 8 = (Inr (), s') \<and>
      map_of (m_Models s') ''A'' = Some (SetName model_A ''A'') \<and>
      map_of (m_ExecutionContexts s') ''A'' =
        Some (CreateExecutionContext (SetName model_A ''A'')) \<and>
      map_of (m_ModelsAndBatchSize s') =
        (map_of (m_ModelsAndBatchSize ws_A4))((''A'', 8) \<mapsto> SetName model_A ''A''))"
proof -
  have 1: "m_BindingsStack ws_A4 = None" by (simp add: ws_A4_def ws_fresh_def)
  have 2: "m_ActivationSpace ws_A4 = None" by (simp add: ws_A4_def ws_fresh_def)
  have 3: "8 \<le> MaxBatchSize model_A" by (simp add: model_A_def)
  have 4: "map_of (m_ModelsAndBatchSize ws_A4) (''A'', 8) = None"
    by (simp add: ws_A4_def ws_fresh_def)
  note t = same_name_fails_only_on_same_batch_size
    [OF 1 2 3, where name = "''A''" and alignment = 256]
  from t [THEN conjunct2, THEN mp, OF 4] 1 2 3 4 show ?thesis by (intro conjI)
qed

text \<open>
  C4. After any successful sequence of calls on a new workspace, the binding-stack
  capacity \<open>m_DeviceStackSize\<close> is the maximum, over the models of the \<open>RegisterModel\<close>
  calls, of the model's binding requirement, and the activation capacity
  \<open>m_ActivationsSize\<close> is the maximum of the models' activation requirements (0 when
  nothing is registered): the maximum, not the sum. The requirement is the one the code
  computes in \<open>size_t\<close>; where the spec's requirement (binding memory size plus one
  alignment pad per binding, rounded up to 128 KiB; activation memory size rounded up
  to 128 KiB) fits 64 bits for every registered model, the capacities are the maxima of
  those numbers. Both capacities never decrease along further successful calls.
\<close>

theorem capacities_are_maxima_of_requirements:
  assumes "GraphWorkspace_new stream = Inr w" and "run alignment cs w = (Inr (), s)"
  shows
   "m_DeviceStackSize s =
      Max (insert 0 (device_requirement alignment ` set (registered_models cs))) \<and>
    m_ActivationsSize s =
      Max (insert 0 (activations_requirement ` set (registered_models cs))) \<and>
    ((\<forall>m \<in> set (registered_models cs). spec_binding_requirement alignment m < 2 ^ 64) \<longrightarrow>
       unat (m_DeviceStackSize s) =
         Max (insert 0 (spec_binding_requirement alignment ` set (registered_models cs)))) \<and>
    ((\<forall>m \<in> set (registered_models cs). spec_activation_requirement m < 2 ^ 64) \<longrightarrow>
       unat (m_ActivationsSize s) =
         Max (insert 0 (spec_activation_requirement ` set (registered_models cs)))) \<and>
    (\<forall>ds s'. run alignment ds s = (Inr (), s') \<longrightarrow>
       m_DeviceStackSize s \<le> m_DeviceStackSize s' \<and> m_ActivationsSize s \<le> m_ActivationsSize s')"
proof -
  from assms(1) have w: "m_DeviceStackSize w = 0" "m_ActivationsSize w = 0"
    by (auto simp: GraphWorkspace_new_def split: option.splits)
  from run_sizes [OF assms(2)] w
  have d: "m_DeviceStackSize s =
      Max (insert 0 (device_requirement alignment ` set (registered_models cs)))"
    and a: "m_ActivationsSize s =
      Max (insert 0 (activations_requirement ` set (registered_models cs)))"
    by simp_all
  have d': "unat (m_DeviceStackSize s) =
         Max (insert 0 (spec_binding_requirement alignment ` set (registered_models cs)))"
    if "\<forall>m \<in> set (registered_models cs). spec_binding_requirement alignment m < 2 ^ 64"
    unfolding d using that
    by (intro unat_Max_image) (auto simp: device_requirement_spec)
  have a': "unat (m_ActivationsSize s) =
         Max (insert 0 (spec_activation_requirement ` set (registered_models cs)))"
    if "\<forall>m \<in> set (registered_models cs). spec_activation_requirement m < 2 ^ 64"
    unfolding a using that
    by (intro unat_Max_image) (auto simp: activations_requirement_spec)
  have g: "\<forall>ds s'. run alignment ds s = (Inr (), s') \<longrightarrow>
       m_DeviceStackSize s \<le> m_DeviceStackSize s' \<and> m_ActivationsSize s \<le> m_ActivationsSize s'"
    using run_sizes_grow by blast
  from d a d' a' g show ?thesis by blast
qed

theorem capacities_are_maxima_of_requirements_witness:
  "GraphWorkspace_new (Some 7) = Inr ws_fresh \<and>
   run 256 [CallRegisterModel ''A'' model_A 4, CallRegisterModel ''A'' model_A 8] ws_fresh
     = (Inr (), ws_A4_A8) \<and>
   spec_binding_requirement 256 model_A < 2 ^ 64 \<and>
   spec_activation_requirement model_A < 2 ^ 64 \<and>
   unat (m_DeviceStackSize ws_A4_A8) = 131072 \<and>
   unat (m_ActivationsSize ws_A4_A8) = 131072"
proof -
  let ?cs = "[CallRegisterModel ''A'' model_A 4, CallRegisterModel ''A'' model_A 8]"
  note t = capacities_are_maxima_of_requirements
    [OF scenario_new scenario_two_registrations]
  have b: "\<forall>m \<in> set (registered_models ?cs). spec_binding_requirement 256 m < 2 ^ 64"
    by (simp add: scenario_requirements)
  have a: "\<forall>m \<in> set (registered_models ?cs). spec_activation_requirement m < 2 ^ 64"
    by (simp add: scenario_requirements)
  from t [THEN conjunct2, THEN conjunct2, THEN conjunct1, THEN mp, OF b]
  have 1: "unat (m_DeviceStackSize ws_A4_A8) = 131072"
    by (simp add: scenario_requirements)
  from t [THEN conjunct2, THEN conjunct2, THEN conjunct2, THEN conjunct1, THEN mp, OF a]
  have 2: "unat (m_ActivationsSize ws_A4_A8) = 131072"
    by (simp add: scenario_requirements)
  have 3: "spec_binding_requirement 256 model_A < 2 ^ 64"
    and 4: "spec_activation_requirement model_A < 2 ^ 64"
    by (simp_all add: scenario_requirements)
  from scenario_new scenario_two_registrations 3 4 1 2 show ?thesis by (intro conjI)
qed

text \<open>
  C1. In the workspace reached from a new one by a successful sequence of calls, a graph
  executor is cached for (name, batch size), that is \<open>IsGraphAvailable\<close> returns true
  and \<open>GetGraph\<close> returns the cached executor, if and only if the sequence has a
  \<open>BuildGraphs\<close> call with a \<open>RegisterModel\<close> call for exactly that key before it. In
  particular a model registered under the key and then built has its graph available.
\<close>

theorem graph_exists_iff_built_after_registering:
  assumes "GraphWorkspace_new stream = Inr w" and "run alignment cs w = (Inr (), s)"
  shows
   "(IsGraphAvailable s name batch_size = (Inr True, s) \<longleftrightarrow>
       (\<exists>pre cuda post. cs = pre @ CallBuildGraphs cuda # post \<and>
          MakeKey name batch_size \<in> set (registered_keys pre))) \<and>
    ((\<exists>exec. GetGraph s name batch_size = (Inr exec, s) \<and>
             map_of (m_GraphExecutors s) (MakeKey name batch_size) = Some exec) \<longleftrightarrow>
       (\<exists>pre cuda post. cs = pre @ CallBuildGraphs cuda # post \<and>
          MakeKey name batch_size \<in> set (registered_keys pre))) \<and>
    (\<forall>pre model mid cuda post.
       cs = pre @ CallRegisterModel name model batch_size # mid @ CallBuildGraphs cuda # post
       \<longrightarrow> IsGraphAvailable s name batch_size = (Inr True, s) \<and>
           (\<exists>exec. GetGraph s name batch_size = (Inr exec, s) \<and>
              map_of (m_GraphExecutors s) (MakeKey name batch_size) = Some exec))"
proof -
  let ?k = "MakeKey name batch_size"
  let ?B = "\<exists>pre cuda post. cs = pre @ CallBuildGraphs cuda # post \<and>
          ?k \<in> set (registered_keys pre)"
  from run_executor_keys [OF assms]
  have dom: "?k \<in> dom (map_of (m_GraphExecutors s)) \<longleftrightarrow> ?B"
    by (simp add: built_after_registering_def)
  have avail: "IsGraphAvailable s name batch_size = (Inr True, s) \<longleftrightarrow> ?B"
    unfolding dom [symmetric]
    by (auto simp: IsGraphAvailable_def Let_def split: option.splits)
  have get: "(\<exists>exec. GetGraph s name batch_size = (Inr exec, s) \<and>
             map_of (m_GraphExecutors s) ?k = Some exec) \<longleftrightarrow> ?B"
    unfolding dom [symmetric]
    by (auto simp: GetGraph_def Let_def split: option.splits)
  have fwd: "?B"
    if "cs = pre @ CallRegisterModel name model batch_size # mid @ CallBuildGraphs cuda # post"
    for pre model mid cuda post
  proof -
    from that have "cs = (pre @ CallRegisterModel name model batch_size # mid)
                       @ CallBuildGraphs cuda # post" by simp
    moreover have "?k \<in> set (registered_keys (pre @ CallRegisterModel name model batch_size # mid))"
      by (simp add: registered_keys_append)
    ultimately show ?thesis by blast
  qed
  from avail get fwd show ?thesis by blast
qed

theorem graph_exists_iff_built_after_registering_witness:
  "GraphWorkspace_new (Some 7) = Inr ws_fresh \<and>
   run 256 [CallRegisterModel ''A'' model_A 4, CallRegisterModel ''A'' model_A 8,
            CallBuildGraphs device_ok] ws_fresh = (Inr (), ws_built) \<and>
   IsGraphAvailable ws_built ''A'' 4 = (Inr True, ws_built) \<and>
   (\<exists>exec. GetGraph ws_built ''A'' 4 = (Inr exec, ws_built) \<and>
      map_of (m_GraphExecutors ws_built) (MakeKey ''A'' 4) = Some exec)"
proof -
  note t = graph_exists_iff_built_after_registering
    [OF scenario_new scenario_run, where name = "''A''" and batch_size = 4]
  have "[CallRegisterModel ''A'' model_A 4, CallRegisterModel ''A'' model_A 8,
         CallBuildGraphs device_ok] =
        [] @ CallRegisterModel ''A'' model_A 4 # [CallRegisterModel ''A'' model_A 8]
           @ CallBuildGraphs device_ok # []" by simp
  from t [THEN conjunct2, THEN conjunct2, rule_format, OF this]
  have "IsGraphAvailable ws_built ''A'' 4 = (Inr True, ws_built) \<and>
        (\<exists>exec. GetGraph ws_built ''A'' 4 = (Inr exec, ws_built) \<and>
           map_of (m_GraphExecutors ws_built) (MakeKey ''A'' 4) = Some exec)" .
  with scenario_new scenario_run show ?thesis by (intro conjI) simp_all
qed




end
